theory Spec2Isabelle
  imports Main
begin

unbundle bit_operations_syntax

section \<open>Platform constants and C conversions\<close>

text \<open>
  The pass-through filesystem of \<^verbatim>\<open>basic_fuse.c\<close> forwards every operation to a backend
  directory. Paths and write buffers are byte strings; the C integer types that the code
  converts between are modelled by mathematical integers with the conversions written out.
\<close>

type_synonym path = string
type_synonym bytes = "char list"

definition NUL :: char where
  "NUL = CHR 0x00"

text \<open>\<^verbatim>\<open>PATH_MAX\<close> and \<^verbatim>\<open>INT_MAX\<close> of \<^verbatim>\<open><limits.h>\<close> (Linux).\<close>

definition PATH_MAX :: nat where
  "PATH_MAX = 4096"

definition INT_MAX :: nat where
  "INT_MAX = 2147483647"

text \<open>
  The conversion \<^verbatim>\<open>(int) x\<close> of a 64-bit value (\<^verbatim>\<open>size_t\<close>, \<^verbatim>\<open>ssize_t\<close>, \<^verbatim>\<open>uint64_t\<close>) keeps the
  low 32 bits, read as two's complement; \<^verbatim>\<open>(uint64_t) fd\<close> reduces modulo \<open>2^64\<close>.
\<close>

definition c_int :: "int \<Rightarrow> int" where
  "c_int n = (n + 2147483648) mod 4294967296 - 2147483648"

definition c_uint64 :: "int \<Rightarrow> nat" where
  "c_uint64 n = nat (n mod 18446744073709551616)"

text \<open>Error numbers of \<^verbatim>\<open><errno.h>\<close> with their Linux values; the code returns them negated.\<close>

datatype errno =
    EPERM | ENOENT | EINTR | EIO | EBADF | EAGAIN | ENOMEM | EACCES | EEXIST | ENOTDIR
  | EISDIR | EINVAL | ENFILE | EMFILE | EFBIG | ENOSPC | ESPIPE | EROFS | ENAMETOOLONG

fun errno_val :: "errno \<Rightarrow> int" where
  "errno_val EPERM = 1"
| "errno_val ENOENT = 2"
| "errno_val EINTR = 4"
| "errno_val EIO = 5"
| "errno_val EBADF = 9"
| "errno_val EAGAIN = 11"
| "errno_val ENOMEM = 12"
| "errno_val EACCES = 13"
| "errno_val EEXIST = 17"
| "errno_val ENOTDIR = 20"
| "errno_val EISDIR = 21"
| "errno_val EINVAL = 22"
| "errno_val ENFILE = 23"
| "errno_val EMFILE = 24"
| "errno_val EFBIG = 27"
| "errno_val ENOSPC = 28"
| "errno_val ESPIPE = 29"
| "errno_val EROFS = 30"
| "errno_val ENAMETOOLONG = 36"

text \<open>Open flags of \<^verbatim>\<open><fcntl.h>\<close> (Linux).\<close>

definition O_WRONLY :: int where
  "O_WRONLY = 1"

definition O_CREAT :: int where
  "O_CREAT = 64"

definition O_APPEND :: int where
  "O_APPEND = 1024"

section \<open>The backend\<close>

text \<open>
  The backend is the set of system calls the code issues. It is modelled as a test double:
  every call is answered from a table held in the \<open>world\<close> and appended to the \<open>trace\<close> of
  calls the backend has observed. A failing call (\<open>-1\<close> or \<open>NULL\<close> with \<open>errno\<close> set) is the
  \<open>Inl\<close> branch of a sum.

  Successive \<^verbatim>\<open>pwrite\<close> calls may be answered differently (a short write, an interrupt, an
  error), so their outcomes are a sequence indexed by the number of \<^verbatim>\<open>pwrite\<close> calls made so
  far. \<open>Accept n\<close> says that the backend takes at most \<open>n\<close> of the bytes offered by that call:
  \<^verbatim>\<open>pwrite\<close> never reports more bytes than it was given.
\<close>

record stat =
  st_mode :: nat
  st_size :: nat
  st_mtime :: nat

record fuse_file_info =
  fi_flags :: int
  fh :: nat

datatype pw_outcome = Accept nat | Fail errno

datatype call =
    Lstat path
  | Opendir path
  | Readdir
  | Closedir
  | Open path int "nat option"
  | Pread int nat int
  | Pwrite int bytes int "errno + nat"
  | Close int
  | Rename path path

record world =
  lstat_res :: "path \<Rightarrow> errno + stat"
  opendir_res :: "path \<Rightarrow> errno + string list"
  open_res :: "path \<Rightarrow> int \<Rightarrow> errno + nat"
  pread_res :: "int \<Rightarrow> int \<Rightarrow> errno + bytes"
  rename_res :: "path \<Rightarrow> path \<Rightarrow> errno option"
  pwrite_res :: "nat \<Rightarrow> pw_outcome"
  pwrites :: nat
  trace :: "call list"

definition observe :: "call \<Rightarrow> world \<Rightarrow> world" where
  "observe c w = w\<lparr>trace := trace w @ [c]\<rparr>"

definition sys_lstat :: "world \<Rightarrow> path \<Rightarrow> (errno + stat) \<times> world" where
  "sys_lstat w f = (lstat_res w f, observe (Lstat f) w)"

definition sys_opendir :: "world \<Rightarrow> path \<Rightarrow> (errno + string list) \<times> world" where
  "sys_opendir w f = (opendir_res w f, observe (Opendir f) w)"

text \<open>An open directory stream is the list of entry names it has yet to deliver.\<close>

definition sys_readdir :: "world \<Rightarrow> string list \<Rightarrow> (string \<times> string list) option \<times> world" where
  "sys_readdir w dp =
     (case dp of [] \<Rightarrow> (None, observe Readdir w)
      | d # ds \<Rightarrow> (Some (d, ds), observe Readdir w))"

definition sys_closedir :: "world \<Rightarrow> world" where
  "sys_closedir w = observe Closedir w"

definition sys_open :: "world \<Rightarrow> path \<Rightarrow> int \<Rightarrow> nat option \<Rightarrow> (errno + nat) \<times> world" where
  "sys_open w f flags mode = (open_res w f flags, observe (Open f flags mode) w)"

text \<open>
  \<^verbatim>\<open>pread\<close> delivers at most \<open>size'\<close> of the bytes the file holds from \<open>offset\<close> on, and on
  Linux never more than \<open>MAX_RW_COUNT\<close> (\<open>0x7ffff000\<close>) bytes in one call.
\<close>

definition MAX_RW_COUNT :: nat where
  "MAX_RW_COUNT = 2147479552"

definition sys_pread :: "world \<Rightarrow> int \<Rightarrow> nat \<Rightarrow> int \<Rightarrow> (errno + bytes) \<times> world" where
  "sys_pread w fd size' offset =
     (case pread_res w fd offset of
        Inl e \<Rightarrow> (Inl e, observe (Pread fd size' offset) w)
      | Inr data \<Rightarrow>
          (Inr (take (min size' MAX_RW_COUNT) data), observe (Pread fd size' offset) w))"

text \<open>\<^verbatim>\<open>pwrite (fd, p, count, off)\<close> is offered the first \<open>count\<close> bytes at \<open>p\<close>.\<close>

definition sys_pwrite :: "world \<Rightarrow> int \<Rightarrow> bytes \<Rightarrow> nat \<Rightarrow> int \<Rightarrow> (errno + nat) \<times> world" where
  "sys_pwrite w fd p count off =
     (let res = (case pwrite_res w (pwrites w) of
                   Accept n \<Rightarrow> Inr (min n count)
                 | Fail e \<Rightarrow> Inl e)
      in (res, observe (Pwrite fd (take count p) off res) (w\<lparr>pwrites := Suc (pwrites w)\<rparr>)))"

definition sys_close :: "world \<Rightarrow> int \<Rightarrow> world" where
  "sys_close w fd = observe (Close fd) w"

definition sys_rename :: "world \<Rightarrow> path \<Rightarrow> path \<Rightarrow> errno option \<times> world" where
  "sys_rename w f t = (rename_res w f t, observe (Rename f t) w)"

section \<open>Path translation\<close>

text \<open>
  \<^verbatim>\<open>snprintf (out, out_size, ...)\<close> stores at most \<open>out_size - 1\<close> characters of the formatted
  text followed by a terminating NUL, and nothing when \<open>out_size\<close> is 0. The value is the
  part of the buffer that was written; \<open>c_str\<close> reads a buffer back as a C string.
\<close>

definition snprintf :: "nat \<Rightarrow> string \<Rightarrow> char list" where
  "snprintf out_size s = (if out_size = 0 then [] else take (out_size - 1) s @ [NUL])"

definition c_str :: "char list \<Rightarrow> string" where
  "c_str b = takeWhile (\<lambda>c. c \<noteq> NUL) b"

definition DIR_PATH :: string where
  "DIR_PATH = ''/tmp/fuse_data''"

definition get_full_path :: "path \<Rightarrow> nat \<Rightarrow> char list" where
  "get_full_path path out_size = snprintf out_size (DIR_PATH @ path)"

section \<open>Operations\<close>

text \<open>
  Each operation takes the world and returns its result with the world it leaves behind;
  an operation that stores into its \<open>fuse_file_info\<close> returns that as well. Arguments the
  code ignores are left out where they carry nothing (the offset, file info and flags of
  readdir, the output buffer of read); \<open>size'\<close> is the parameter \<^verbatim>\<open>size\<close>.
\<close>

subsection \<open>readdir\<close>

text \<open>
  The \<open>filler\<close> is the consumer's callback; it updates the consumer's buffer and returns
  non-zero to stop the enumeration.
\<close>

definition child_path :: "path \<Rightarrow> string \<Rightarrow> path" where
  "child_path fpath d_name = c_str (snprintf PATH_MAX (fpath @ ''/'' @ d_name))"

fun readdir_loop ::
  "('b \<Rightarrow> string \<Rightarrow> stat \<Rightarrow> int \<times> 'b) \<Rightarrow> path \<Rightarrow> string list \<Rightarrow> 'b \<Rightarrow> world \<Rightarrow> 'b \<times> world"
where
  "readdir_loop filler fpath [] buf w = (buf, snd (sys_readdir w []))"
| "readdir_loop filler fpath (d # ds) buf w =
     (let w1 = snd (sys_readdir w (d # ds));
          child = child_path fpath d
      in case sys_lstat w1 child of
           (Inl e, w2) \<Rightarrow> readdir_loop filler fpath ds buf w2
         | (Inr st, w2) \<Rightarrow>
             (case filler buf d st of
                (r, buf') \<Rightarrow> if r \<noteq> 0 then (buf', w2) else readdir_loop filler fpath ds buf' w2))"

definition basic_readdir ::
  "world \<Rightarrow> path \<Rightarrow> 'b \<Rightarrow> ('b \<Rightarrow> string \<Rightarrow> stat \<Rightarrow> int \<times> 'b) \<Rightarrow> int \<times> 'b \<times> world"
where
  "basic_readdir w path buf filler =
     (let fpath = c_str (get_full_path path PATH_MAX)
      in case sys_opendir w fpath of
           (Inl e, w1) \<Rightarrow> (- errno_val e, buf, w1)
         | (Inr dp, w1) \<Rightarrow>
             (case readdir_loop filler fpath dp buf w1 of
                (buf', w2) \<Rightarrow> (0, buf', sys_closedir w2)))"

subsection \<open>create, open, release\<close>

definition basic_create ::
  "world \<Rightarrow> path \<Rightarrow> nat \<Rightarrow> fuse_file_info \<Rightarrow> int \<times> fuse_file_info \<times> world"
where
  "basic_create w path mode fi =
     (let fpath = c_str (get_full_path path PATH_MAX);
          flags = O_CREAT OR O_WRONLY;
          flags = (if fi_flags fi AND O_APPEND \<noteq> 0 then flags OR O_APPEND else flags)
      in case sys_open w fpath flags (Some mode) of
           (Inl e, w1) \<Rightarrow> (- errno_val e, fi, w1)
         | (Inr fd, w1) \<Rightarrow> (0, fi\<lparr>fh := c_uint64 (int fd)\<rparr>, w1))"

definition basic_open :: "world \<Rightarrow> path \<Rightarrow> fuse_file_info \<Rightarrow> int \<times> fuse_file_info \<times> world" where
  "basic_open w path fi =
     (let fpath = c_str (get_full_path path PATH_MAX)
      in case sys_open w fpath (fi_flags fi) None of
           (Inl e, w1) \<Rightarrow> (- errno_val e, fi, w1)
         | (Inr fd, w1) \<Rightarrow> (0, fi\<lparr>fh := c_uint64 (int fd)\<rparr>, w1))"

definition basic_release :: "world \<Rightarrow> path \<Rightarrow> fuse_file_info \<Rightarrow> int \<times> fuse_file_info \<times> world" where
  "basic_release w path fi =
     (let fd = c_int (int (fh fi))
      in if fd \<ge> 0 then (0, fi\<lparr>fh := 0\<rparr>, sys_close w fd) else (0, fi, w))"

subsection \<open>read and write\<close>

text \<open>The bytes read are the contents the call leaves in the caller's buffer.\<close>

definition basic_read ::
  "world \<Rightarrow> path \<Rightarrow> nat \<Rightarrow> int \<Rightarrow> fuse_file_info \<Rightarrow> int \<times> bytes \<times> world"
where
  "basic_read w path size' offset fi =
     (case sys_pread w (c_int (int (fh fi))) size' offset of
        (Inl e, w1) \<Rightarrow> (- errno_val e, [], w1)
      | (Inr data, w1) \<Rightarrow> (c_int (int (length data)), data, w1))"

text \<open>
  The retry loop of \<open>basic_write\<close> has no bound of its own, so it is a partial function:
  \<open>None\<close> is a loop that never returns.
\<close>

partial_function (option) write_loop ::
  "world \<Rightarrow> int \<Rightarrow> bytes \<Rightarrow> nat \<Rightarrow> int \<Rightarrow> nat \<Rightarrow> (int \<times> world) option"
where
  "write_loop w fd p to_write off size' =
     (if to_write > 0 then
        (case sys_pwrite w fd p to_write off of
           (Inl e, w1) \<Rightarrow>
             if e = EINTR then write_loop w1 fd p to_write off size'
             else Some (- errno_val e, w1)
         | (Inr written, w1) \<Rightarrow>
             write_loop w1 fd (drop written p) (to_write - written) (off + int written) size')
      else Some (c_int (int size'), w))"

declare write_loop.simps [code]

definition basic_write ::
  "world \<Rightarrow> path \<Rightarrow> bytes \<Rightarrow> nat \<Rightarrow> int \<Rightarrow> fuse_file_info \<Rightarrow> (int \<times> world) option"
where
  "basic_write w path buf size' offset fi =
     write_loop w (c_int (int (fh fi))) buf size' offset size'"

subsection \<open>rename\<close>

definition basic_rename :: "world \<Rightarrow> path \<Rightarrow> path \<Rightarrow> nat \<Rightarrow> int \<times> world" where
  "basic_rename w from to flags =
     (if flags \<noteq> 0 then (- errno_val EINVAL, w)
      else
        (let ffrom = c_str (get_full_path from PATH_MAX);
             fto = c_str (get_full_path to PATH_MAX)
         in case sys_rename w ffrom fto of
              (Some e, w1) \<Rightarrow> (- errno_val e, w1)
            | (None, w1) \<Rightarrow> (0, w1)))"

section \<open>Reading a trace\<close>

text \<open>
  What a sequence of observed calls says about a write: the bytes the backend took, in
  order, and the failures other than an interrupted call.
\<close>

fun accepted :: "call list \<Rightarrow> bytes" where
  "accepted [] = []"
| "accepted (Pwrite fd bs off (Inr n) # cs) = take n bs @ accepted cs"
| "accepted (c # cs) = accepted cs"

fun hard_errors :: "call list \<Rightarrow> errno list" where
  "hard_errors [] = []"
| "hard_errors (Pwrite fd bs off (Inl e) # cs) =
     (if e = EINTR then hard_errors cs else e # hard_errors cs)"
| "hard_errors (c # cs) = hard_errors cs"

text \<open>
  Every \<^verbatim>\<open>pwrite\<close> of one write request goes to the same descriptor, offers the bytes not
  yet taken, and starts where the bytes taken so far end.
\<close>

fun consecutive :: "int \<Rightarrow> bytes \<Rightarrow> int \<Rightarrow> call list \<Rightarrow> bool" where
  "consecutive fd p off [] = True"
| "consecutive fd p off (Pwrite fd' bs off' res # cs) =
     (fd' = fd \<and> bs = p \<and> off' = off \<and>
      (case res of
         Inl e \<Rightarrow> consecutive fd p off cs
       | Inr n \<Rightarrow> consecutive fd (drop n p) (off + int n) cs))"
| "consecutive fd p off (c # cs) = False"

text \<open>
  A returned write is all or error: with \<open>evs\<close> the calls it added to the trace, either it
  reports the requested length and the backend took every byte, or it reports the negated
  error of its last call, the only failure among \<open>evs\<close> that is not an interrupt, and at
  least one byte was not taken.
\<close>

definition all_or_error :: "world \<Rightarrow> int \<Rightarrow> bytes \<Rightarrow> int \<Rightarrow> nat \<Rightarrow> int \<times> world \<Rightarrow> bool" where
  "all_or_error w fd p off sz y =
     (\<exists>evs. trace (snd y) = trace w @ evs \<and> consecutive fd p off evs \<and>
        ((fst y = c_int (int sz) \<and> accepted evs = p \<and> hard_errors evs = []) \<or>
         (\<exists>e bs off'. e \<noteq> EINTR \<and> fst y = - errno_val e \<and> hard_errors evs = [e] \<and>
            evs \<noteq> [] \<and> last evs = Pwrite fd bs off' (Inl e) \<and>
            (\<exists>rest. rest \<noteq> [] \<and> p = accepted evs @ rest))))"

text \<open>The calls a session may issue on its descriptor between open and release.\<close>

fun io_on :: "int \<Rightarrow> call \<Rightarrow> bool" where
  "io_on fd (Pread fd' n off) = (fd' = fd)"
| "io_on fd (Pwrite fd' bs off res) = (fd' = fd)"
| "io_on fd c = False"

fun hard :: "pw_outcome \<Rightarrow> bool" where
  "hard (Fail e) = (e \<noteq> EINTR)"
| "hard (Accept n) = False"

fun capacity :: "pw_outcome \<Rightarrow> nat" where
  "capacity (Accept n) = n"
| "capacity (Fail e) = 0"

text \<open>
  The listing a directory read should produce, in the words of the design: the entries
  whose metadata resolves, each offered to the consumer's callback until it signals stop.
\<close>

fun resolved_entries :: "(path \<Rightarrow> errno + stat) \<Rightarrow> path \<Rightarrow> string list \<Rightarrow> (string \<times> stat) list" where
  "resolved_entries look fpath [] = []"
| "resolved_entries look fpath (d # ds) =
     (case look (child_path fpath d) of
        Inl e \<Rightarrow> resolved_entries look fpath ds
      | Inr st \<Rightarrow> (d, st) # resolved_entries look fpath ds)"

fun offer :: "('b \<Rightarrow> string \<Rightarrow> stat \<Rightarrow> int \<times> 'b) \<Rightarrow> (string \<times> stat) list \<Rightarrow> 'b \<Rightarrow> 'b" where
  "offer filler [] buf = buf"
| "offer filler ((d, st) # es) buf =
     (case filler buf d st of (r, buf') \<Rightarrow> if r \<noteq> 0 then buf' else offer filler es buf')"

section \<open>Sessions\<close>

text \<open>
  Between the open (or create) and the release of a file the consumer issues reads and
  writes on the same \<open>fuse_file_info\<close>. A request whose write loop never returns leaves
  the session without a result.
\<close>

datatype request = ReadReq nat int | WriteReq bytes int

fun serve :: "world \<Rightarrow> path \<Rightarrow> fuse_file_info \<Rightarrow> request list \<Rightarrow> world option" where
  "serve w path fi [] = Some w"
| "serve w path fi (ReadReq n offset # rs) =
     (case basic_read w path n offset fi of (r, data, w1) \<Rightarrow> serve w1 path fi rs)"
| "serve w path fi (WriteReq bs offset # rs) =
     (case basic_write w path bs (length bs) offset fi of
        None \<Rightarrow> None
      | Some (r, w1) \<Rightarrow> serve w1 path fi rs)"

text \<open>
  A session starts with an open or a create. When that fails the session stays closed and
  nothing follows; when it succeeds the requests are served and release is called once.
\<close>

datatype session_start = ByOpen | ByCreate nat

fun begin_session ::
  "world \<Rightarrow> path \<Rightarrow> session_start \<Rightarrow> fuse_file_info \<Rightarrow> int \<times> fuse_file_info \<times> world"
where
  "begin_session w path ByOpen fi = basic_open w path fi"
| "begin_session w path (ByCreate mode) fi = basic_create w path mode fi"

definition session ::
  "world \<Rightarrow> path \<Rightarrow> session_start \<Rightarrow> fuse_file_info \<Rightarrow> request list \<Rightarrow>
     (int \<times> fuse_file_info \<times> world) option"
where
  "session w path how fi reqs =
     (case begin_session w path how fi of
        (r, fi1, w1) \<Rightarrow>
          if r \<noteq> 0 then Some (r, fi1, w1)
          else (case serve w1 path fi1 reqs of
                  None \<Rightarrow> None
                | Some w2 \<Rightarrow> Some (basic_release w2 path fi1)))"

section \<open>Concrete backends\<close>

text \<open>
  Backends and callbacks for the examples below. On \<open>idle_world\<close> nothing exists, every
  read is at end of file and every \<^verbatim>\<open>pwrite\<close> takes at most two bytes. \<open>session3\<close> is a
  session on descriptor 3; \<open>unopened\<close> asks for \<^verbatim>\<open>O_WRONLY | O_APPEND\<close> and has no
  descriptor yet.
\<close>

definition idle_world :: world where
  "idle_world =
     \<lparr>lstat_res = (\<lambda>f. Inl ENOENT), opendir_res = (\<lambda>f. Inl ENOENT),
      open_res = (\<lambda>f fl. Inl ENOENT), pread_res = (\<lambda>fd offset. Inr []),
      rename_res = (\<lambda>f t. None), pwrite_res = (\<lambda>k. Accept 2), pwrites = 0, trace = []\<rparr>"

definition session3 :: fuse_file_info where
  "session3 = \<lparr>fi_flags = 0, fh = 3\<rparr>"

definition unopened :: fuse_file_info where
  "unopened = \<lparr>fi_flags = 1025, fh = 0\<rparr>"

text \<open>
  A file holding \<open>hello\<close>, one that holds \<open>2^32\<close> bytes, and one whose reads fail.
\<close>

definition text_world :: world where
  "text_world = idle_world\<lparr>pread_res := (\<lambda>fd offset. Inr (drop (nat offset) ''hello''))\<rparr>"

definition huge_file_world :: world where
  "huge_file_world =
     idle_world\<lparr>pread_res := (\<lambda>fd offset. Inr (replicate 4294967296 (CHR ''a'')))\<rparr>"

definition bad_fd_world :: world where
  "bad_fd_world = idle_world\<lparr>pread_res := (\<lambda>fd offset. Inl EBADF)\<rparr>"

text \<open>
  Write outcomes: two bytes, an interrupt, then two bytes at a time; two bytes and then no
  space; never a byte; and at most \<open>0x7ffff000\<close> bytes for each call.
\<close>

definition chunked_world :: world where
  "chunked_world = idle_world\<lparr>pwrite_res := (\<lambda>k. if k = 1 then Fail EINTR else Accept 2)\<rparr>"

definition full_world :: world where
  "full_world = idle_world\<lparr>pwrite_res := (\<lambda>k. if k = 0 then Accept 2 else Fail ENOSPC)\<rparr>"

definition stalled_world :: world where
  "stalled_world = idle_world\<lparr>pwrite_res := (\<lambda>k. Accept 0)\<rparr>"

definition bulk_world :: world where
  "bulk_world = idle_world\<lparr>pwrite_res := (\<lambda>k. Accept 2147479552)\<rparr>"

text \<open>
  A directory \<open>/d\<close> with the entries \<open>a\<close>, \<open>gone\<close>, \<open>b\<close> and \<open>c\<close>, of which \<open>gone\<close> cannot
  be resolved; a directory none of whose entries can be resolved; and a consumer callback
  with room for \<open>n\<close> names, which reports a full buffer by returning 1.
\<close>

definition plain_file :: stat where
  "plain_file = \<lparr>st_mode = 33188, st_size = 5, st_mtime = 0\<rparr>"

definition listing_world :: world where
  "listing_world =
     idle_world
       \<lparr>lstat_res :=
          (\<lambda>f. if f = ''/tmp/fuse_data/d/a'' \<or> f = ''/tmp/fuse_data/d/b''
                  \<or> f = ''/tmp/fuse_data/d/c''
                then Inr plain_file else Inl ENOENT),
        opendir_res :=
          (\<lambda>f. if f = ''/tmp/fuse_data/d'' then Inr [''a'', ''gone'', ''b'', ''c'']
                else Inl ENOENT)\<rparr>"

definition ghost_world :: world where
  "ghost_world = idle_world\<lparr>opendir_res := (\<lambda>f. Inr [''gone'', ''lost''])\<rparr>"

definition room_filler :: "nat \<Rightarrow> string list \<Rightarrow> string \<Rightarrow> stat \<Rightarrow> int \<times> string list" where
  "room_filler n buf d_name st = (if length buf < n then (0, buf @ [d_name]) else (1, buf))"

text \<open>A backend on which every open succeeds with descriptor 3.\<close>

definition open_world :: world where
  "open_world = text_world\<lparr>open_res := (\<lambda>f fl. Inr 3)\<rparr>"

section \<open>Conversions\<close>

lemma c_int_id: "- 2147483648 \<le> n \<Longrightarrow> n \<le> 2147483647 \<Longrightarrow> c_int n = n"
  unfolding c_int_def by (simp add: mod_pos_pos_trivial)

lemma c_int_nat: "n \<le> INT_MAX \<Longrightarrow> c_int (int n) = int n"
  by (rule c_int_id) (simp_all add: INT_MAX_def)

lemma c_uint64_nat: "n \<le> INT_MAX \<Longrightarrow> c_uint64 (int n) = n"
  unfolding c_uint64_def INT_MAX_def by (simp add: mod_pos_pos_trivial)

lemma errno_val_pos: "0 < errno_val e"
  by (cases e) simp_all

lemma c_str_snprintf: "NUL \<notin> set s \<Longrightarrow> 0 < n \<Longrightarrow> c_str (snprintf n s) = take (n - 1) s"
proof -
  assume a: "NUL \<notin> set s" and n: "0 < n"
  have "\<And>x. x \<in> set (take (n - 1) s) \<Longrightarrow> x \<noteq> NUL"
    using a by (auto dest: in_set_takeD)
  then have "takeWhile (\<lambda>c. c \<noteq> NUL) (take (n - 1) s @ [NUL]) = take (n - 1) s"
    by (simp add: takeWhile_append2)
  with n show ?thesis by (simp add: c_str_def snprintf_def)
qed

lemma NUL_DIR_PATH: "NUL \<notin> set DIR_PATH"
  by (simp add: DIR_PATH_def NUL_def)

section \<open>The directory loop\<close>

lemma lstat_res_observe [simp]: "lstat_res (observe c w) = lstat_res w"
  by (simp add: observe_def)

lemma readdir_loop_offer:
  "fst (readdir_loop filler fpath dp buf w) =
     offer filler (resolved_entries (lstat_res w) fpath dp) buf"
proof (induction dp arbitrary: buf w)
  case Nil
  show ?case by simp
next
  case (Cons d ds)
  show ?case
  proof (cases "lstat_res w (child_path fpath d)")
    case (Inl e)
    then show ?thesis
      using Cons.IH by (simp add: sys_lstat_def sys_readdir_def)
  next
    case (Inr st)
    then show ?thesis
      using Cons.IH by (simp add: sys_lstat_def sys_readdir_def split: prod.splits)
  qed
qed

lemma offer_never_stopped:
  "(\<And>b d st. fst (filler b d st) = 0) \<Longrightarrow>
   offer filler es buf = foldl (\<lambda>b (d, st). snd (filler b d st)) buf es"
proof (induction es arbitrary: buf)
  case Nil
  show ?case by simp
next
  case (Cons x xs)
  obtain d st where x: "x = (d, st)" by (cases x)
  obtain r b' where f: "filler buf d st = (r, b')" by (cases "filler buf d st")
  with Cons.prems [of buf d st] have "r = 0" by simp
  with x f Cons show ?case by simp
qed

lemma resolved_entries_none:
  "(\<And>d. d \<in> set dp \<Longrightarrow> \<exists>e. look (child_path fpath d) = Inl e) \<Longrightarrow>
   resolved_entries look fpath dp = []"
proof (induction dp)
  case Nil
  show ?case by simp
next
  case (Cons d ds)
  from Cons.prems [of d] obtain e where "look (child_path fpath d) = Inl e" by auto
  moreover have "resolved_entries look fpath ds = []"
    using Cons.IH Cons.prems by simp
  ultimately show ?case by simp
qed

lemma basic_readdir_opened:
  assumes "opendir_res w (c_str (get_full_path path PATH_MAX)) = Inr dp"
  shows "fst (basic_readdir w path buf filler) = 0"
    and "fst (snd (basic_readdir w path buf filler)) =
      offer filler (resolved_entries (lstat_res w) (c_str (get_full_path path PATH_MAX)) dp) buf"
  using assms readdir_loop_offer [of filler "c_str (get_full_path path PATH_MAX)" dp buf "observe (Opendir (c_str (get_full_path path PATH_MAX))) w"]
  by (simp_all add: basic_readdir_def sys_opendir_def Let_def case_prod_beta)

section \<open>The write loop\<close>

lemma sys_pwrite_effect:
  assumes "sys_pwrite w fd p c off = (res, w1)"
  shows "trace w1 = trace w @ [Pwrite fd (take c p) off res]"
    and "pwrites w1 = Suc (pwrites w)"
    and "pwrite_res w1 = pwrite_res w"
    and "res = (case pwrite_res w (pwrites w) of Accept n \<Rightarrow> Inr (min n c) | Fail e \<Rightarrow> Inl e)"
  using assms by (auto simp: sys_pwrite_def observe_def Let_def)

lemma sys_pwrite_written:
  "sys_pwrite w fd p c off = (Inr n, w1) \<Longrightarrow> n \<le> c"
  by (auto simp: sys_pwrite_def Let_def split: pw_outcome.splits)

lemma all_or_errorI_ok:
  assumes "trace (snd y) = trace w @ evs" "consecutive fd p off evs"
    "fst y = c_int (int sz)" "accepted evs = p" "hard_errors evs = []"
  shows "all_or_error w fd p off sz y"
  unfolding all_or_error_def using assms by (intro exI [of _ evs]) simp

lemma all_or_errorI_err:
  assumes "trace (snd y) = trace w @ evs" "consecutive fd p off evs"
    "e \<noteq> EINTR" "fst y = - errno_val e" "hard_errors evs = [e]" "evs \<noteq> []"
    "last evs = Pwrite fd bs off' (Inl e)" "rest \<noteq> []" "p = accepted evs @ rest"
  shows "all_or_error w fd p off sz y"
proof -
  have "\<exists>rest. rest \<noteq> [] \<and> p = accepted evs @ rest"
    using assms(8,9) by (intro exI [of _ rest]) simp
  then have "\<exists>e bs off'. e \<noteq> EINTR \<and> fst y = - errno_val e \<and> hard_errors evs = [e] \<and>
            evs \<noteq> [] \<and> last evs = Pwrite fd bs off' (Inl e) \<and>
            (\<exists>rest. rest \<noteq> [] \<and> p = accepted evs @ rest)"
    using assms(3-7) by (intro exI [of _ e] exI [of _ bs] exI [of _ off']) simp
  then show ?thesis
    unfolding all_or_error_def using assms(1,2) by (intro exI [of _ evs]) simp
qed

lemma all_or_errorE:
  assumes "all_or_error w fd p off sz y"
  obtains (ok) evs where "trace (snd y) = trace w @ evs" "consecutive fd p off evs"
      "fst y = c_int (int sz)" "accepted evs = p" "hard_errors evs = []"
  | (err) evs e bs off' rest where "trace (snd y) = trace w @ evs" "consecutive fd p off evs"
      "e \<noteq> EINTR" "fst y = - errno_val e" "hard_errors evs = [e]" "evs \<noteq> []"
      "last evs = Pwrite fd bs off' (Inl e)" "rest \<noteq> []" "p = accepted evs @ rest"
proof -
  from assms obtain evs where evs: "trace (snd y) = trace w @ evs" "consecutive fd p off evs"
    and alt: "(fst y = c_int (int sz) \<and> accepted evs = p \<and> hard_errors evs = []) \<or>
         (\<exists>e bs off'. e \<noteq> EINTR \<and> fst y = - errno_val e \<and> hard_errors evs = [e] \<and>
            evs \<noteq> [] \<and> last evs = Pwrite fd bs off' (Inl e) \<and>
            (\<exists>rest. rest \<noteq> [] \<and> p = accepted evs @ rest))"
    unfolding all_or_error_def by (elim exE conjE)
  from alt show thesis
  proof
    assume "fst y = c_int (int sz) \<and> accepted evs = p \<and> hard_errors evs = []"
    with evs show thesis by (intro ok [of evs]) simp_all
  next
    assume "\<exists>e bs off'. e \<noteq> EINTR \<and> fst y = - errno_val e \<and> hard_errors evs = [e] \<and>
            evs \<noteq> [] \<and> last evs = Pwrite fd bs off' (Inl e) \<and>
            (\<exists>rest. rest \<noteq> [] \<and> p = accepted evs @ rest)"
    then obtain e bs off' rest where "e \<noteq> EINTR" "fst y = - errno_val e"
        "hard_errors evs = [e]" "evs \<noteq> []" "last evs = Pwrite fd bs off' (Inl e)"
        "rest \<noteq> []" "p = accepted evs @ rest"
      by (elim exE conjE)
    with evs show thesis by (intro err [of evs e bs off' rest])
  qed
qed

lemma all_or_error_done: "all_or_error w fd [] off sz (c_int (int sz), w)"
  by (rule all_or_errorI_ok [of _ _ "[]"]) simp_all

lemma all_or_error_fail:
  assumes "e \<noteq> EINTR" "p \<noteq> []" "trace w1 = trace w @ [Pwrite fd p off (Inl e)]"
  shows "all_or_error w fd p off sz (- errno_val e, w1)"
  using assms
  by (intro all_or_errorI_err [of _ _ "[Pwrite fd p off (Inl e)]" fd p off e p off p]) simp_all

lemma all_or_error_retry:
  assumes tr: "trace w1 = trace w @ [Pwrite fd p off (Inl EINTR)]"
    and post: "all_or_error w1 fd p off sz y"
  shows "all_or_error w fd p off sz y"
  using post
proof (cases rule: all_or_errorE)
  case (ok evs)
  show ?thesis
    using ok tr by (intro all_or_errorI_ok [of _ _ "Pwrite fd p off (Inl EINTR) # evs"]) simp_all
next
  case (err evs e bs off' rest)
  show ?thesis
    using err tr
    by (intro all_or_errorI_err [of _ _ "Pwrite fd p off (Inl EINTR) # evs" fd p off e bs off' rest])
      simp_all
qed

lemma all_or_error_advance:
  assumes tr: "trace w1 = trace w @ [Pwrite fd p off (Inr n)]"
    and post: "all_or_error w1 fd (drop n p) (off + int n) sz y"
  shows "all_or_error w fd p off sz y"
  using post
proof (cases rule: all_or_errorE)
  case (ok evs)
  show ?thesis
    using ok tr by (intro all_or_errorI_ok [of _ _ "Pwrite fd p off (Inr n) # evs"]) simp_all
next
  case (err evs e bs off' rest)
  have "p = take n p @ drop n p" by simp
  also have "\<dots> = take n p @ accepted evs @ rest" using err(9) by simp
  finally have split: "p = accepted (Pwrite fd p off (Inr n) # evs) @ rest" by simp
  show ?thesis
    using err(1-8) tr split
    by (intro all_or_errorI_err [of _ _ "Pwrite fd p off (Inr n) # evs" fd p off e bs off' rest])
      simp_all
qed

lemma write_loop_outcome:
  assumes "write_loop w fd p tw off sz = Some y"
  shows "tw = length p \<longrightarrow> all_or_error w fd p off sz y"
proof (rule write_loop.raw_induct
    [where P = "\<lambda>w fd p tw off sz y. tw = length p \<longrightarrow> all_or_error w fd p off sz y", OF _ assms])
  fix f w fd p tw off sz y
  assume IH: "\<And>w fd p tw off sz y. f w fd p tw off sz = Some y \<Longrightarrow>
      tw = length p \<longrightarrow> all_or_error w fd p off sz y"
    and body: "(if 0 < tw then
        (case sys_pwrite w fd p tw off of
           (Inl e, w1) \<Rightarrow> if e = EINTR then f w1 fd p tw off sz else Some (- errno_val e, w1)
         | (Inr written, w1) \<Rightarrow> f w1 fd (drop written p) (tw - written) (off + int written) sz)
      else Some (c_int (int sz), w)) = Some y"
  show "tw = length p \<longrightarrow> all_or_error w fd p off sz y"
  proof
    assume len: "tw = length p"
    show "all_or_error w fd p off sz y"
    proof (cases "0 < tw")
      case False
      with body len show ?thesis by (auto intro: all_or_error_done)
    next
      case True
      obtain res w1 where call: "sys_pwrite w fd p tw off = (res, w1)"
        by (cases "sys_pwrite w fd p tw off")
      have tr: "trace w1 = trace w @ [Pwrite fd p off res]"
        using sys_pwrite_effect(1) [OF call] len by simp
      show ?thesis
      proof (cases res)
        case (Inl e)
        show ?thesis
        proof (cases "e = EINTR")
          case True
          with body \<open>0 < tw\<close> call Inl have "f w1 fd p tw off sz = Some y" by simp
          from IH [OF this] len have "all_or_error w1 fd p off sz y" by simp
          with tr Inl True show ?thesis by (auto intro: all_or_error_retry)
        next
          case False
          with body \<open>0 < tw\<close> call Inl have "y = (- errno_val e, w1)" by simp
          moreover have "p \<noteq> []" using \<open>0 < tw\<close> len by auto
          ultimately show ?thesis using all_or_error_fail [OF False _ tr [unfolded Inl]] by simp
        qed
      next
        case (Inr n)
        with body \<open>0 < tw\<close> call
        have "f w1 fd (drop n p) (tw - n) (off + int n) sz = Some y" by simp
        from IH [OF this] len have "all_or_error w1 fd (drop n p) (off + int n) sz y" by simp
        with tr Inr show ?thesis by (auto intro: all_or_error_advance)
      qed
    qed
  qed
qed


lemma write_loop_returns_on_error:
  "hard (pwrite_res w (pwrites w + k)) \<Longrightarrow> write_loop w fd p tw off sz \<noteq> None"
proof (induction k arbitrary: w p tw off)
  case 0
  then obtain e where e: "pwrite_res w (pwrites w) = Fail e" "e \<noteq> EINTR"
    by (cases "pwrite_res w (pwrites w)") auto
  then show ?case
    by (subst write_loop.simps) (simp add: sys_pwrite_def Let_def)
next
  case (Suc k)
  show ?case
  proof (cases "0 < tw")
    case False
    then show ?thesis by (subst write_loop.simps) simp
  next
    case True
    obtain res w1 where call: "sys_pwrite w fd p tw off = (res, w1)"
      by (cases "sys_pwrite w fd p tw off")
    have "pwrite_res w1 (pwrites w1 + k) = pwrite_res w (pwrites w + Suc k)"
      using sys_pwrite_effect(2,3) [OF call] by simp
    with Suc.prems have next_hard: "hard (pwrite_res w1 (pwrites w1 + k))" by simp
    show ?thesis
    proof (cases res)
      case (Inl e)
      with True call Suc.IH [OF next_hard] show ?thesis
        by (subst write_loop.simps) simp
    next
      case (Inr n)
      with True call Suc.IH [OF next_hard] show ?thesis
        by (subst write_loop.simps) simp
    qed
  qed
qed

lemma write_loop_returns_on_capacity:
  "tw \<le> (\<Sum>i<n. capacity (pwrite_res w (pwrites w + i))) \<Longrightarrow>
   write_loop w fd p tw off sz \<noteq> None"
proof (induction n arbitrary: w p tw off)
  case 0
  then show ?case by (subst write_loop.simps) simp
next
  case (Suc n)
  show ?case
  proof (cases "0 < tw")
    case False
    then show ?thesis by (subst write_loop.simps) simp
  next
    case True
    obtain res w1 where call: "sys_pwrite w fd p tw off = (res, w1)"
      by (cases "sys_pwrite w fd p tw off")
    have shift: "(\<Sum>i<Suc n. capacity (pwrite_res w (pwrites w + i))) =
        capacity (pwrite_res w (pwrites w)) + (\<Sum>i<n. capacity (pwrite_res w1 (pwrites w1 + i)))"
    proof -
      have "(\<Sum>i<Suc n. capacity (pwrite_res w (pwrites w + i))) =
          capacity (pwrite_res w (pwrites w + 0)) +
          (\<Sum>i<n. capacity (pwrite_res w (pwrites w + Suc i)))"
        by (rule sum.lessThan_Suc_shift)
      then show ?thesis
        using sys_pwrite_effect(2,3) [OF call] by simp
    qed
    show ?thesis
    proof (cases res)
      case (Inl e)
      then have "capacity (pwrite_res w (pwrites w)) = 0"
        using sys_pwrite_effect(4) [OF call] by (cases "pwrite_res w (pwrites w)") auto
      with Suc.prems shift have "tw \<le> (\<Sum>i<n. capacity (pwrite_res w1 (pwrites w1 + i)))"
        by simp
      from Suc.IH [OF this] Inl True call show ?thesis
        by (subst write_loop.simps) simp
    next
      case (Inr m)
      then have "m = min (capacity (pwrite_res w (pwrites w))) tw"
        using sys_pwrite_effect(4) [OF call] by (cases "pwrite_res w (pwrites w)") auto
      with Suc.prems shift
      have "tw - m \<le> (\<Sum>i<n. capacity (pwrite_res w1 (pwrites w1 + i)))"
        by simp
      from Suc.IH [OF this] Inr True call show ?thesis
        by (subst write_loop.simps) simp
    qed
  qed
qed

lemma write_loop_stalls:
  assumes "write_loop w fd p tw off sz = Some y"
  shows "\<not> ((\<forall>k. pwrite_res w k = Accept 0) \<and> 0 < tw)"
proof (rule write_loop.raw_induct
    [where P = "\<lambda>w fd p tw off sz y. \<not> ((\<forall>k. pwrite_res w k = Accept 0) \<and> 0 < tw)", OF _ assms])
  fix f w fd p tw off sz y
  assume IH: "\<And>w fd p tw off sz y. f w fd p tw off sz = Some y \<Longrightarrow>
      \<not> ((\<forall>k. pwrite_res w k = Accept 0) \<and> 0 < tw)"
    and body: "(if 0 < tw then
        (case sys_pwrite w fd p tw off of
           (Inl e, w1) \<Rightarrow> if e = EINTR then f w1 fd p tw off sz else Some (- errno_val e, w1)
         | (Inr written, w1) \<Rightarrow> f w1 fd (drop written p) (tw - written) (off + int written) sz)
      else Some (c_int (int sz), w)) = Some y"
  show "\<not> ((\<forall>k. pwrite_res w k = Accept 0) \<and> 0 < tw)"
  proof
    assume stall: "(\<forall>k. pwrite_res w k = Accept 0) \<and> 0 < tw"
    obtain res w1 where call: "sys_pwrite w fd p tw off = (res, w1)"
      by (cases "sys_pwrite w fd p tw off")
    have res: "res = Inr 0"
      using sys_pwrite_effect(4) [OF call] stall by simp
    have same: "pwrite_res w1 = pwrite_res w"
      using sys_pwrite_effect(3) [OF call] .
    from body stall call res have "f w1 fd p tw off sz = Some y" by simp
    from IH [OF this] same stall show False by simp
  qed
qed

section \<open>Calls of a session\<close>

lemma basic_read_trace:
  "basic_read w path n offset fi = (r, d, w1) \<Longrightarrow>
   trace w1 = trace w @ [Pread (c_int (int (fh fi))) n offset]"
  by (auto simp: basic_read_def sys_pread_def observe_def split: sum.splits)

lemma consecutive_io: "consecutive fd p off evs \<Longrightarrow> list_all (io_on fd) evs"
proof (induction fd p off evs rule: consecutive.induct)
  case (2 fd p off fd' bs off' res cs)
  then show ?case by (cases res) auto
qed simp_all

lemma basic_write_trace:
  assumes "basic_write w path bs (length bs) offset fi = Some (r, w1)"
  shows "\<exists>evs. trace w1 = trace w @ evs \<and> list_all (io_on (c_int (int (fh fi)))) evs"
proof -
  from assms have "write_loop w (c_int (int (fh fi))) bs (length bs) offset (length bs) = Some (r, w1)"
    by (simp add: basic_write_def)
  from write_loop_outcome [OF this]
  have "all_or_error w (c_int (int (fh fi))) bs offset (length bs) (r, w1)" by simp
  then obtain evs where "trace w1 = trace w @ evs" "consecutive (c_int (int (fh fi))) bs offset evs"
    unfolding all_or_error_def by auto
  then show ?thesis
    by (intro exI [of _ evs]) (simp add: consecutive_io)
qed

lemma serve_trace:
  "serve w path fi reqs = Some w2 \<Longrightarrow>
   \<exists>mid. trace w2 = trace w @ mid \<and> list_all (io_on (c_int (int (fh fi)))) mid"
proof (induction reqs arbitrary: w)
  case Nil
  then show ?case by simp
next
  case (Cons q qs)
  show ?case
  proof (cases q)
    case (ReadReq n offset)
    obtain r d w1 where rd: "basic_read w path n offset fi = (r, d, w1)"
      by (cases "basic_read w path n offset fi")
    with Cons.prems ReadReq have "serve w1 path fi qs = Some w2" by simp
    from Cons.IH [OF this] obtain mid where mid: "trace w2 = trace w1 @ mid"
        "list_all (io_on (c_int (int (fh fi)))) mid"
      by blast
    let ?ev = "Pread (c_int (int (fh fi))) n offset"
    have "trace w2 = trace w @ (?ev # mid)"
      using mid(1) basic_read_trace [OF rd] by simp
    moreover have "list_all (io_on (c_int (int (fh fi)))) (?ev # mid)"
      using mid(2) by simp
    ultimately show ?thesis by blast
  next
    case (WriteReq bs offset)
    with Cons.prems obtain r w1 where
      wr: "basic_write w path bs (length bs) offset fi = Some (r, w1)"
      and rest: "serve w1 path fi qs = Some w2"
      by (auto split: option.splits)
    from basic_write_trace [OF wr] obtain evs where evs: "trace w1 = trace w @ evs"
        "list_all (io_on (c_int (int (fh fi)))) evs"
      by blast
    from Cons.IH [OF rest] obtain mid where mid: "trace w2 = trace w1 @ mid"
        "list_all (io_on (c_int (int (fh fi)))) mid"
      by blast
    have "trace w2 = trace w @ (evs @ mid)" using evs(1) mid(1) by simp
    moreover have "list_all (io_on (c_int (int (fh fi)))) (evs @ mid)"
      using evs(2) mid(2) by simp
    ultimately show ?thesis by blast
  qed
qed

lemma begin_session_opened:
  assumes "fst (begin_session w path how fi) = 0"
  shows "\<exists>fl m fd. open_res w (c_str (get_full_path path PATH_MAX)) fl = Inr fd
    \<and> begin_session w path how fi =
        (0, fi\<lparr>fh := c_uint64 (int fd)\<rparr>,
         observe (Open (c_str (get_full_path path PATH_MAX)) fl m) w)"
proof (cases how)
  case ByOpen
  let ?fpath = "c_str (get_full_path path PATH_MAX)"
  show ?thesis
  proof (cases "open_res w ?fpath (fi_flags fi)")
    case (Inl e)
    with assms ByOpen errno_val_pos [of e] show ?thesis
      by (simp add: basic_open_def sys_open_def)
  next
    case (Inr fd)
    with ByOpen show ?thesis
      by (intro exI [of _ "fi_flags fi"] exI [of _ None] exI [of _ fd])
        (simp add: basic_open_def sys_open_def)
  qed
next
  case (ByCreate mode)
  let ?fpath = "c_str (get_full_path path PATH_MAX)"
  let ?fl = "if fi_flags fi AND O_APPEND \<noteq> 0 then (O_CREAT OR O_WRONLY) OR O_APPEND
             else O_CREAT OR O_WRONLY"
  show ?thesis
  proof (cases "open_res w ?fpath ?fl")
    case (Inl e)
    with assms ByCreate errno_val_pos [of e] show ?thesis
      by (simp add: basic_create_def sys_open_def Let_def split: if_splits)
  next
    case (Inr fd)
    with ByCreate show ?thesis
      by (intro exI [of _ ?fl] exI [of _ "Some mode"] exI [of _ fd])
        (simp add: basic_create_def sys_open_def Let_def split: if_splits)
  qed
qed

section \<open>Path translation is prefixing, bounded and terminated\<close>

text \<open>
  Claim C3. For every virtual path \<open>p\<close> the translated path is a function of \<open>p\<close> alone:
  the backend root followed by \<open>p\<close>, cut to fit a buffer of \<open>PATH_MAX\<close> bytes when the two
  together are too long, and always ending in a NUL inside that buffer. When root and path
  fit, the buffer holds exactly root, path and the terminator; read back as a C string, the
  buffer is the first \<open>PATH_MAX - 1\<close> characters of root followed by path.
\<close>

theorem get_full_path_translates:
  "get_full_path p PATH_MAX \<noteq> []
   \<and> last (get_full_path p PATH_MAX) = NUL
   \<and> length (get_full_path p PATH_MAX) \<le> PATH_MAX
   \<and> butlast (get_full_path p PATH_MAX) = take (PATH_MAX - 1) (DIR_PATH @ p)
   \<and> (length (DIR_PATH @ p) < PATH_MAX \<longrightarrow> get_full_path p PATH_MAX = DIR_PATH @ p @ [NUL])
   \<and> (NUL \<notin> set p \<longrightarrow> c_str (get_full_path p PATH_MAX) = take (PATH_MAX - 1) (DIR_PATH @ p))"
proof -
  have pos: "0 < PATH_MAX" by (simp add: PATH_MAX_def)
  have shape: "get_full_path p PATH_MAX = take (PATH_MAX - 1) (DIR_PATH @ p) @ [NUL]"
    using pos by (simp add: get_full_path_def snprintf_def)
  have len: "length (get_full_path p PATH_MAX) \<le> PATH_MAX"
    using pos unfolding shape by simp
  have fits: "length (DIR_PATH @ p) < PATH_MAX \<longrightarrow> get_full_path p PATH_MAX = DIR_PATH @ p @ [NUL]"
    unfolding shape by simp
  have readback: "NUL \<notin> set p \<longrightarrow> c_str (get_full_path p PATH_MAX) = take (PATH_MAX - 1) (DIR_PATH @ p)"
    using c_str_snprintf [of "DIR_PATH @ p" PATH_MAX] pos NUL_DIR_PATH
    by (simp add: get_full_path_def)
  have nonempty: "get_full_path p PATH_MAX \<noteq> []"
    unfolding shape by simp
  have terminated: "last (get_full_path p PATH_MAX) = NUL"
    unfolding shape by simp
  have body: "butlast (get_full_path p PATH_MAX) = take (PATH_MAX - 1) (DIR_PATH @ p)"
    unfolding shape by (rule butlast_snoc)
  from nonempty terminated len body fits readback show ?thesis by blast
qed

theorem get_full_path_translates_witness:
  "get_full_path ''/a.txt'' PATH_MAX = ''/tmp/fuse_data/a.txt'' @ [NUL]
   \<and> c_str (get_full_path ''/a.txt'' PATH_MAX) = ''/tmp/fuse_data/a.txt''"
  using get_full_path_translates [of "''/a.txt''"]
  by (simp add: DIR_PATH_def PATH_MAX_def NUL_def c_str_def)

section \<open>Rename rejects flags\<close>

text \<open>
  Claim C4. For every pair of virtual paths, a rename with non-zero flags returns
  \<open>-EINVAL\<close> (\<open>-22\<close>) and leaves the backend as it was: no call is issued, so neither path
  is touched. With flags zero the backend observes exactly one rename, of the two
  translated paths; that is the only case in which it observes one.
\<close>

theorem basic_rename_flags:
  "(flags \<noteq> 0 \<longrightarrow> basic_rename w from to flags = (- errno_val EINVAL, w))
   \<and> errno_val EINVAL = 22
   \<and> (flags = 0 \<longrightarrow>
        trace (snd (basic_rename w from to flags)) =
          trace w @ [Rename (c_str (get_full_path from PATH_MAX)) (c_str (get_full_path to PATH_MAX))])"
  by (simp add: basic_rename_def sys_rename_def observe_def Let_def split: option.splits)

theorem basic_rename_flags_witness:
  "basic_rename idle_world ''/a'' ''/b'' 1 = (- 22, idle_world)
   \<and> trace (snd (basic_rename idle_world ''/a'' ''/b'' 0)) =
       [Rename ''/tmp/fuse_data/a'' ''/tmp/fuse_data/b'']"
  using basic_rename_flags [of 1 idle_world "''/a''" "''/b''"]
    basic_rename_flags [of 0 idle_world "''/a''" "''/b''"]
  by (simp add: idle_world_def get_full_path_def snprintf_def c_str_def DIR_PATH_def
      PATH_MAX_def NUL_def)

section \<open>An empty write\<close>

text \<open>
  Claim C8. For every session and offset, a write of zero bytes returns 0 and issues no
  backend call: the world, and with it the trace of observed calls and the count of
  \<^verbatim>\<open>pwrite\<close> calls, is unchanged.
\<close>

theorem basic_write_empty: "basic_write w path buf 0 offset fi = Some (0, w)"
  by (simp add: basic_write_def write_loop.simps c_int_def)

section \<open>Release is not idempotent\<close>

text \<open>
  Claim C10. After a release on a session whose stored descriptor is non-negative the
  handle field is 0. That value passes the validity test of release as well, so a second
  release on the same session closes descriptor 0: after both, the backend has observed a
  close of the stored descriptor followed by a close of 0.
\<close>

theorem basic_release_twice:
  assumes "0 \<le> c_int (int (fh fi))"
    and "basic_release w path fi = (r1, fi1, w1)"
    and "basic_release w1 path fi1 = (r2, fi2, w2)"
  shows "fh fi1 = 0 \<and> trace w1 = trace w @ [Close (c_int (int (fh fi)))]
    \<and> trace w2 = trace w @ [Close (c_int (int (fh fi))), Close 0] \<and> fh fi2 = 0
    \<and> r1 = 0 \<and> r2 = 0"
  using assms
  by (auto simp: basic_release_def sys_close_def observe_def c_int_def Let_def)

theorem basic_release_twice_witness:
  "0 \<le> c_int (int (fh session3))
   \<and> trace (snd (snd (basic_release
        (snd (snd (basic_release idle_world ''/f'' session3))) ''/f''
        (fst (snd (basic_release idle_world ''/f'' session3)))))) = [Close 3, Close 0]"
proof -
  have h: "0 \<le> c_int (int (fh session3))"
    by (simp add: session3_def c_int_def)
  obtain r1 fi1 w1 where a: "basic_release idle_world ''/f'' session3 = (r1, fi1, w1)"
    by (cases "basic_release idle_world ''/f'' session3") auto
  obtain r2 fi2 w2 where b: "basic_release w1 ''/f'' fi1 = (r2, fi2, w2)"
    by (cases "basic_release w1 ''/f'' fi1") auto
  have "trace w2 = trace idle_world @ [Close (c_int (int (fh session3))), Close 0]"
    using basic_release_twice [OF h a b] by simp
  then have "trace w2 = [Close 3, Close 0]"
    by (simp add: idle_world_def session3_def c_int_def)
  with h a b show ?thesis by simp
qed

section \<open>Read forwards one positioned read\<close>

text \<open>
  Claim C7. For every session, buffer size and offset, read issues exactly one positioned
  read on the session's descriptor, at that offset and for that size. When the backend
  delivers bytes, read returns their number: at most \<open>size\<close>, possibly fewer and possibly
  none at the end of the file, and never negative. When the backend read fails, read
  returns the negated error. The result is negative exactly when the backend read failed.
\<close>

theorem basic_read_forwards:
  assumes "basic_read w path size' offset fi = (r, data, w')"
  shows "trace w' = trace w @ [Pread (c_int (int (fh fi))) size' offset]
    \<and> (\<forall>e. pread_res w (c_int (int (fh fi))) offset = Inl e \<longrightarrow> r = - errno_val e)
    \<and> (\<forall>held. pread_res w (c_int (int (fh fi))) offset = Inr held \<longrightarrow>
          data = take (min size' MAX_RW_COUNT) held \<and> length data \<le> size'
          \<and> r = int (length data))
    \<and> (r < 0) = isl (pread_res w (c_int (int (fh fi))) offset)"
proof (cases "pread_res w (c_int (int (fh fi))) offset")
  case (Inl e)
  with assms errno_val_pos [of e] show ?thesis
    by (auto simp: basic_read_def sys_pread_def observe_def)
next
  case (Inr held)
  let ?data = "take (min size' MAX_RW_COUNT) held"
  have "length ?data \<le> MAX_RW_COUNT" by simp
  then have "length ?data \<le> INT_MAX"
    by (simp add: MAX_RW_COUNT_def INT_MAX_def)
  then have fits: "c_int (int (length ?data)) = int (length ?data)"
    by (rule c_int_nat)
  from assms Inr have res: "r = c_int (int (length data))" "data = ?data"
      "w' = observe (Pread (c_int (int (fh fi))) size' offset) w"
    by (auto simp: basic_read_def sys_pread_def)
  have "length ?data \<le> size'" by simp
  with res fits Inr show ?thesis
    by (simp add: observe_def del: length_take)
qed

theorem basic_read_forwards_witness:
  "basic_read text_world ''/f'' 3 0 session3 = (3, ''hel'', text_world\<lparr>trace := [Pread 3 3 0]\<rparr>)
   \<and> pread_res text_world (c_int (int (fh session3))) 0 = Inr ''hello''
   \<and> fst (basic_read text_world ''/f'' 3 4 session3) = 1
   \<and> fst (basic_read text_world ''/f'' 3 5 session3) = 0
   \<and> fst (basic_read bad_fd_world ''/f'' 3 0 session3) = - 9
   \<and> fst (basic_read huge_file_world ''/f'' 4294967296 0 session3) = 2147479552"
proof -
  have run: "basic_read text_world ''/f'' 3 0 session3 =
      (3, ''hel'', text_world\<lparr>trace := [Pread 3 3 0]\<rparr>)"
    by (simp add: basic_read_def sys_pread_def observe_def text_world_def idle_world_def
        session3_def c_int_def MAX_RW_COUNT_def)
  have held: "pread_res text_world (c_int (int (fh session3))) 0 = Inr ''hello''"
    by (simp add: text_world_def)
  have tail: "fst (basic_read text_world ''/f'' 3 4 session3) = 1"
    "fst (basic_read text_world ''/f'' 3 5 session3) = 0"
    by (simp_all add: basic_read_def sys_pread_def observe_def text_world_def idle_world_def
        session3_def c_int_def MAX_RW_COUNT_def)
  have failed: "fst (basic_read bad_fd_world ''/f'' 3 0 session3) = - 9"
    by (simp add: basic_read_def sys_pread_def bad_fd_world_def idle_world_def)
  have huge: "fst (basic_read huge_file_world ''/f'' 4294967296 0 session3) = 2147479552"
    by (simp add: basic_read_def sys_pread_def huge_file_world_def idle_world_def
        MAX_RW_COUNT_def c_int_def)
  from basic_read_forwards [OF run] held have "(3::int) = int (length ''hel'')"
    by blast
  with run held tail failed huge show ?thesis by blast
qed

section \<open>A write whose backend makes no progress\<close>

text \<open>
  Claim C2. The loop is meant to end: each iteration should take bytes off the remaining
  count, retry after an interrupt, or leave with an error. A \<^verbatim>\<open>pwrite\<close> that returns 0 for
  a non-empty request is none of the three. On a backend that keeps answering so, a write
  of one byte never returns.
\<close>

theorem basic_write_spins: "basic_write stalled_world ''/f'' ''x'' 1 0 session3 = None"
proof (cases "basic_write stalled_world ''/f'' ''x'' 1 0 session3")
  case None
  then show ?thesis .
next
  case (Some y)
  then have "write_loop stalled_world (c_int (int (fh session3))) ''x'' 1 0 1 = Some y"
    by (simp add: basic_write_def)
  from write_loop_stalls [OF this] show ?thesis
    by (simp add: stalled_world_def)
qed

section \<open>A write is all or error\<close>

text \<open>
  Claim C1, amended. For every session and every byte sequence of at most \<open>INT_MAX\<close> bytes:
  write returns as soon as the backend's coming outcomes hold an error other than an
  interrupt, or room for all the bytes. Whenever it returns, the calls it issued were
  consecutive positioned writes of the bytes not yet taken, and either it reports exactly
  the requested length and the backend took every byte, with no failure but interrupts on
  the way, or it reports the negated error of its last call, the first failure that was
  not an interrupt, while at least one byte was not taken. It never reports a number of
  bytes below the requested length.
\<close>

theorem basic_write_all_or_error:
  assumes "length buf \<le> INT_MAX"
  shows "(hard (pwrite_res w (pwrites w + k))
          \<or> length buf \<le> (\<Sum>i<n. capacity (pwrite_res w (pwrites w + i)))
        \<longrightarrow> basic_write w path buf (length buf) offset fi \<noteq> None)
    \<and> (\<forall>r w'. basic_write w path buf (length buf) offset fi = Some (r, w') \<longrightarrow>
         (\<exists>evs. trace w' = trace w @ evs
            \<and> consecutive (c_int (int (fh fi))) buf offset evs
            \<and> ((r = int (length buf) \<and> accepted evs = buf \<and> hard_errors evs = [])
               \<or> (\<exists>e bs off'. e \<noteq> EINTR \<and> r = - errno_val e \<and> r < 0
                     \<and> hard_errors evs = [e] \<and> evs \<noteq> []
                     \<and> last evs = Pwrite (c_int (int (fh fi))) bs off' (Inl e)
                     \<and> (\<exists>rest. rest \<noteq> [] \<and> buf = accepted evs @ rest)))))"
proof (intro conjI impI allI)
  assume "hard (pwrite_res w (pwrites w + k))
      \<or> length buf \<le> (\<Sum>i<n. capacity (pwrite_res w (pwrites w + i)))"
  then show "basic_write w path buf (length buf) offset fi \<noteq> None"
    unfolding basic_write_def
    using write_loop_returns_on_error write_loop_returns_on_capacity by blast
next
  fix r w'
  let ?fd = "c_int (int (fh fi))"
  assume "basic_write w path buf (length buf) offset fi = Some (r, w')"
  then have "write_loop w ?fd buf (length buf) offset (length buf) = Some (r, w')"
    by (simp add: basic_write_def)
  from write_loop_outcome [OF this]
  have post: "all_or_error w ?fd buf offset (length buf) (r, w')" by simp
  have len: "c_int (int (length buf)) = int (length buf)"
    using assms by (rule c_int_nat)
  from post show "\<exists>evs. trace w' = trace w @ evs
            \<and> consecutive ?fd buf offset evs
            \<and> ((r = int (length buf) \<and> accepted evs = buf \<and> hard_errors evs = [])
               \<or> (\<exists>e bs off'. e \<noteq> EINTR \<and> r = - errno_val e \<and> r < 0
                     \<and> hard_errors evs = [e] \<and> evs \<noteq> []
                     \<and> last evs = Pwrite ?fd bs off' (Inl e)
                     \<and> (\<exists>rest. rest \<noteq> [] \<and> buf = accepted evs @ rest)))"
  proof (cases rule: all_or_errorE)
    case (ok evs)
    with len show ?thesis by (intro exI [of _ evs]) simp
  next
    case (err evs e bs off' rest)
    have neg: "- errno_val e < 0" using errno_val_pos [of e] by simp
    have "\<exists>rest. rest \<noteq> [] \<and> buf = accepted evs @ rest"
      using err(8,9) by (intro exI [of _ rest]) simp
    then have "\<exists>e bs off'. e \<noteq> EINTR \<and> r = - errno_val e \<and> r < 0
                     \<and> hard_errors evs = [e] \<and> evs \<noteq> []
                     \<and> last evs = Pwrite ?fd bs off' (Inl e)
                     \<and> (\<exists>rest. rest \<noteq> [] \<and> buf = accepted evs @ rest)"
      using err(3-7) neg by (intro exI [of _ e] exI [of _ bs] exI [of _ off']) simp
    with err(1,2) show ?thesis by (intro exI [of _ evs]) simp
  qed
qed

theorem basic_write_all_or_error_witness:
  "length ''hello'' \<le> INT_MAX
   \<and> basic_write chunked_world ''/f'' ''hello'' (length ''hello'') 7 session3 \<noteq> None
   \<and> map_option fst (basic_write chunked_world ''/f'' ''hello'' 5 7 session3) = Some 5
   \<and> map_option (trace \<circ> snd) (basic_write chunked_world ''/f'' ''hello'' 5 7 session3) =
       Some [Pwrite 3 ''hello'' 7 (Inr 2), Pwrite 3 ''llo'' 9 (Inl EINTR),
             Pwrite 3 ''llo'' 9 (Inr 2), Pwrite 3 ''o'' 11 (Inr 1)]
   \<and> map_option fst (basic_write full_world ''/f'' ''hello'' 5 7 session3) = Some (- 28)
   \<and> map_option (trace \<circ> snd) (basic_write full_world ''/f'' ''hello'' 5 7 session3) =
       Some [Pwrite 3 ''hello'' 7 (Inr 2), Pwrite 3 ''llo'' 9 (Inl ENOSPC)]"
proof -
  have small: "length ''hello'' \<le> INT_MAX"
    by (simp add: INT_MAX_def)
  have "length ''hello'' \<le> (\<Sum>i<4. capacity (pwrite_res chunked_world (pwrites chunked_world + i)))"
    by (simp add: chunked_world_def idle_world_def eval_nat_numeral)
  with basic_write_all_or_error [OF small, of chunked_world 0 4 "''/f''" 7 session3]
  have returns: "basic_write chunked_world ''/f'' ''hello'' (length ''hello'') 7 session3 \<noteq> None"
    by blast
  have run: "map_option fst (basic_write chunked_world ''/f'' ''hello'' 5 7 session3) = Some 5"
    "map_option (trace \<circ> snd) (basic_write chunked_world ''/f'' ''hello'' 5 7 session3) =
       Some [Pwrite 3 ''hello'' 7 (Inr 2), Pwrite 3 ''llo'' 9 (Inl EINTR),
             Pwrite 3 ''llo'' 9 (Inr 2), Pwrite 3 ''o'' 11 (Inr 1)]"
    "map_option fst (basic_write full_world ''/f'' ''hello'' 5 7 session3) = Some (- 28)"
    "map_option (trace \<circ> snd) (basic_write full_world ''/f'' ''hello'' 5 7 session3) =
       Some [Pwrite 3 ''hello'' 7 (Inr 2), Pwrite 3 ''llo'' 9 (Inl ENOSPC)]"
    by code_simp+
  from small returns run show ?thesis by blast
qed

text \<open>
  The claim as first stated has no bound on the length. A request of \<open>2^31\<close> bytes, taken
  by the backend in two calls, is reported as \<open>-2^31\<close>: the length passes through the
  \<^verbatim>\<open>int\<close> return type of the operation.
\<close>

theorem basic_write_overflow:
  "map_option fst
     (basic_write bulk_world ''/f'' (replicate 2147483648 (CHR ''a'')) 2147483648 0 session3) =
     Some (- 2147483648)
   \<and> map_option (accepted \<circ> trace \<circ> snd)
     (basic_write bulk_world ''/f'' (replicate 2147483648 (CHR ''a'')) 2147483648 0 session3) =
     Some (replicate 2147483648 (CHR ''a''))"
proof -
  have "basic_write bulk_world ''/f'' (replicate 2147483648 (CHR ''a'')) 2147483648 0 session3 =
    Some (- 2147483648, bulk_world\<lparr>pwrites := 2, trace :=
      [Pwrite 3 (replicate 2147483648 (CHR ''a'')) 0 (Inr 2147479552),
       Pwrite 3 (replicate 4096 (CHR ''a'')) 2147479552 (Inr 4096)]\<rparr>)"
    unfolding basic_write_def
    apply (subst write_loop.simps)
    apply (simp add: sys_pwrite_def observe_def bulk_world_def idle_world_def session3_def c_int_def
        Let_def)
    apply (subst write_loop.simps)
    apply (simp add: sys_pwrite_def observe_def Let_def)
    apply (subst write_loop.simps)
    apply (simp add: c_int_def)
    done
  then show ?thesis
    by (simp add: replicate_add [symmetric])
qed

section \<open>Directory listing skips what it cannot resolve\<close>

text \<open>
  Claim C6, amended. For every directory whose backend open succeeds, the listing returns
  success and is what the consumer's callback makes of the entries whose metadata
  resolves, offered in backend order until the callback signals stop; entries whose
  resolution fails are passed over and change nothing. The resolved entries are exactly
  the raw entries on which \<^verbatim>\<open>lstat\<close> of the child path succeeds. When the callback never
  signals stop, every one of them is passed to it.
\<close>

theorem basic_readdir_offers_resolved:
  assumes "opendir_res w (c_str (get_full_path path PATH_MAX)) = Inr dp"
  shows "fst (basic_readdir w path buf filler) = 0
    \<and> fst (snd (basic_readdir w path buf filler)) =
        offer filler (resolved_entries (lstat_res w) (c_str (get_full_path path PATH_MAX)) dp) buf
    \<and> map fst (resolved_entries (lstat_res w) (c_str (get_full_path path PATH_MAX)) dp) =
        filter (\<lambda>d. \<not> isl (lstat_res w (child_path (c_str (get_full_path path PATH_MAX)) d))) dp
    \<and> ((\<forall>b d st. fst (filler b d st) = 0) \<longrightarrow>
        fst (snd (basic_readdir w path buf filler)) =
          foldl (\<lambda>b (d, st). snd (filler b d st)) buf
            (resolved_entries (lstat_res w) (c_str (get_full_path path PATH_MAX)) dp))"
proof -
  let ?fpath = "c_str (get_full_path path PATH_MAX)"
  have names: "map fst (resolved_entries look ?fpath ds) =
      filter (\<lambda>d. \<not> isl (look (child_path ?fpath d))) ds" for look ds
    by (induction ds) (auto split: sum.splits)
  have "(\<forall>b d st. fst (filler b d st) = 0) \<longrightarrow>
      offer filler (resolved_entries (lstat_res w) ?fpath dp) buf =
        foldl (\<lambda>b (d, st). snd (filler b d st)) buf (resolved_entries (lstat_res w) ?fpath dp)"
    using offer_never_stopped [of filler] by blast
  with basic_readdir_opened [OF assms, of buf filler] names [of "lstat_res w" dp]
  show ?thesis by simp
qed

theorem basic_readdir_offers_resolved_witness:
  "opendir_res listing_world (c_str (get_full_path ''/d'' PATH_MAX)) =
     Inr [''a'', ''gone'', ''b'', ''c'']
   \<and> fst (basic_readdir listing_world ''/d'' [] (room_filler 8)) = 0
   \<and> fst (snd (basic_readdir listing_world ''/d'' [] (room_filler 8))) = [''a'', ''b'', ''c'']"
proof -
  have fpath: "c_str (get_full_path ''/d'' PATH_MAX) = ''/tmp/fuse_data/d''"
    by (simp add: get_full_path_def snprintf_def c_str_def DIR_PATH_def PATH_MAX_def NUL_def)
  have opened: "opendir_res listing_world (c_str (get_full_path ''/d'' PATH_MAX)) =
      Inr [''a'', ''gone'', ''b'', ''c'']"
    unfolding fpath by (simp add: listing_world_def)
  have entries: "resolved_entries (lstat_res listing_world) ''/tmp/fuse_data/d''
      [''a'', ''gone'', ''b'', ''c''] =
      [(''a'', plain_file), (''b'', plain_file), (''c'', plain_file)]"
    by (simp add: listing_world_def child_path_def snprintf_def c_str_def PATH_MAX_def NUL_def)
  have "offer (room_filler 8) [(''a'', plain_file), (''b'', plain_file), (''c'', plain_file)] [] =
      [''a'', ''b'', ''c'']"
    by (simp add: room_filler_def)
  with basic_readdir_offers_resolved [OF opened, of "[]" "room_filler 8"] opened entries fpath
  show ?thesis by simp
qed

text \<open>
  The claim as first stated promises every resolvable entry. The loop leaves as soon as
  the callback returns non-zero. With room for one name the callback takes \<open>a\<close> and
  refuses \<open>b\<close>; the entry \<open>c\<close> resolves, comes after the refusal, and is neither listed nor
  looked at: the backend observes no \<^verbatim>\<open>lstat\<close> of it.
\<close>

theorem basic_readdir_stopped:
  "opendir_res listing_world (c_str (get_full_path ''/d'' PATH_MAX)) =
     Inr [''a'', ''gone'', ''b'', ''c'']
   \<and> lstat_res listing_world (child_path (c_str (get_full_path ''/d'' PATH_MAX)) ''c'') =
       Inr plain_file
   \<and> fst (basic_readdir listing_world ''/d'' [] (room_filler 1)) = 0
   \<and> fst (snd (basic_readdir listing_world ''/d'' [] (room_filler 1))) = [''a'']
   \<and> trace (snd (snd (basic_readdir listing_world ''/d'' [] (room_filler 1)))) =
       [Opendir ''/tmp/fuse_data/d'', Readdir, Lstat ''/tmp/fuse_data/d/a'',
        Readdir, Lstat ''/tmp/fuse_data/d/gone'', Readdir, Lstat ''/tmp/fuse_data/d/b'',
        Closedir]"
proof -
  have fpath: "c_str (get_full_path ''/d'' PATH_MAX) = ''/tmp/fuse_data/d''"
    by (simp add: get_full_path_def snprintf_def c_str_def DIR_PATH_def PATH_MAX_def NUL_def)
  have children: "child_path ''/tmp/fuse_data/d'' ''a'' = ''/tmp/fuse_data/d/a''"
    "child_path ''/tmp/fuse_data/d'' ''gone'' = ''/tmp/fuse_data/d/gone''"
    "child_path ''/tmp/fuse_data/d'' ''b'' = ''/tmp/fuse_data/d/b''"
    "child_path ''/tmp/fuse_data/d'' ''c'' = ''/tmp/fuse_data/d/c''"
    by (simp_all add: child_path_def snprintf_def c_str_def PATH_MAX_def NUL_def)
  show ?thesis
    unfolding fpath
    by (simp add: basic_readdir_def fpath children sys_opendir_def sys_lstat_def sys_readdir_def
        sys_closedir_def observe_def listing_world_def idle_world_def room_filler_def Let_def)
qed

section \<open>A successful listing may be empty\<close>

text \<open>
  Claim C9. Whenever the backend opens the directory, readdir returns 0, whatever the
  entries and the callback do. When the directory has no entries, or when metadata
  resolution fails for every entry, the callback is never given an entry and the
  consumer's buffer is returned as it was: success does not mean that anything was listed.
\<close>

theorem basic_readdir_success_may_be_empty:
  assumes "opendir_res w (c_str (get_full_path path PATH_MAX)) = Inr dp"
  shows "fst (basic_readdir w path buf filler) = 0
    \<and> (dp = [] \<longrightarrow> fst (snd (basic_readdir w path buf filler)) = buf)
    \<and> ((\<forall>d \<in> set dp. isl (lstat_res w (child_path (c_str (get_full_path path PATH_MAX)) d))) \<longrightarrow>
          fst (snd (basic_readdir w path buf filler)) = buf)"
proof -
  let ?fpath = "c_str (get_full_path path PATH_MAX)"
  have "resolved_entries (lstat_res w) ?fpath dp = []"
    if "\<forall>d \<in> set dp. isl (lstat_res w (child_path ?fpath d))"
  proof (rule resolved_entries_none)
    fix d assume "d \<in> set dp"
    with that have "isl (lstat_res w (child_path ?fpath d))" by simp
    then show "\<exists>e. lstat_res w (child_path ?fpath d) = Inl e"
      by (cases "lstat_res w (child_path ?fpath d)") auto
  qed
  with basic_readdir_opened [OF assms, of buf filler] show ?thesis by auto
qed

theorem basic_readdir_success_may_be_empty_witness:
  "opendir_res ghost_world (c_str (get_full_path ''/d'' PATH_MAX)) = Inr [''gone'', ''lost'']
   \<and> fst (basic_readdir ghost_world ''/d'' [''kept''] (room_filler 8)) = 0
   \<and> fst (snd (basic_readdir ghost_world ''/d'' [''kept''] (room_filler 8))) = [''kept'']"
proof -
  have opened: "opendir_res ghost_world (c_str (get_full_path ''/d'' PATH_MAX)) = Inr [''gone'', ''lost'']"
    by (simp add: ghost_world_def)
  have "\<forall>d \<in> set [''gone'', ''lost''].
      isl (lstat_res ghost_world (child_path (c_str (get_full_path ''/d'' PATH_MAX)) d))"
    by (simp add: ghost_world_def idle_world_def)
  with basic_readdir_success_may_be_empty [OF opened, of "[''kept'']" "room_filler 8"] opened
  show ?thesis by simp
qed

section \<open>Release closes the descriptor once\<close>

text \<open>
  Claim C5. Take a session that a successful open or create starts, on a backend whose
  descriptors are C \<^verbatim>\<open>int\<close> values, and whose release is called once, after its reads and
  writes. Then release returns 0 and resets the handle to 0, the closed state of the
  session; and the calls the backend observes for the session are the open, then reads
  and writes on the descriptor that open returned, then one close of that descriptor. The
  close is the session's last call, so the descriptor is not used again.
\<close>

theorem session_closes_once:
  assumes valid: "\<forall>f fl fd. open_res w f fl = Inr fd \<longrightarrow> fd \<le> INT_MAX"
    and opened: "fst (begin_session w path how fi) = 0"
    and ended: "session w path how fi reqs = Some (r, fi', w')"
  shows "r = 0 \<and> fh fi' = 0
    \<and> (\<exists>fl m fd mid. open_res w (c_str (get_full_path path PATH_MAX)) fl = Inr fd
          \<and> trace w' = trace w @ [Open (c_str (get_full_path path PATH_MAX)) fl m] @ mid
                @ [Close (int fd)]
          \<and> list_all (io_on (int fd)) mid)"
proof -
  let ?fpath = "c_str (get_full_path path PATH_MAX)"
  from begin_session_opened [OF opened] obtain fl m fd where
    res: "open_res w ?fpath fl = Inr fd"
    and start: "begin_session w path how fi =
        (0, fi\<lparr>fh := c_uint64 (int fd)\<rparr>, observe (Open ?fpath fl m) w)"
    by blast
  from valid res have fd: "fd \<le> INT_MAX" by blast
  let ?fi1 = "fi\<lparr>fh := fd\<rparr>"
  let ?w1 = "observe (Open ?fpath fl m) w"
  have start': "begin_session w path how fi = (0, ?fi1, ?w1)"
    using start c_uint64_nat [OF fd] by simp
  have handle: "c_int (int (fh ?fi1)) = int fd"
    using c_int_nat [OF fd] by simp
  from ended start' obtain w2 where
    served: "serve ?w1 path ?fi1 reqs = Some w2"
    and released: "basic_release w2 path ?fi1 = (r, fi', w')"
    by (auto simp: session_def split: option.splits)
  from serve_trace [OF served] handle obtain mid where
    mid: "trace w2 = trace ?w1 @ mid" "list_all (io_on (int fd)) mid"
    by auto
  from released handle have rel: "r = 0" "fh fi' = 0" "trace w' = trace w2 @ [Close (int fd)]"
    by (auto simp: basic_release_def sys_close_def observe_def Let_def)
  have "trace w' = trace w @ [Open ?fpath fl m] @ mid @ [Close (int fd)]"
    using rel(3) mid(1) by (simp add: observe_def)
  with res mid(2) have "\<exists>fl m fd mid. open_res w ?fpath fl = Inr fd
          \<and> trace w' = trace w @ [Open ?fpath fl m] @ mid @ [Close (int fd)]
          \<and> list_all (io_on (int fd)) mid"
    by blast
  with rel(1,2) show ?thesis by simp
qed

theorem session_closes_once_witness:
  "open_res open_world ''/tmp/fuse_data/f'' 1025 = Inr 3 \<and> 3 \<le> INT_MAX
   \<and> fst (begin_session open_world ''/f'' ByOpen unopened) = 0
   \<and> map_option (fh \<circ> fst \<circ> snd)
       (session open_world ''/f'' ByOpen unopened [WriteReq ''hey'' 0, ReadReq 2 0]) = Some 0
   \<and> map_option (trace \<circ> snd \<circ> snd)
       (session open_world ''/f'' ByOpen unopened [WriteReq ''hey'' 0, ReadReq 2 0]) =
       Some [Open ''/tmp/fuse_data/f'' 1025 None, Pwrite 3 ''hey'' 0 (Inr 2),
             Pwrite 3 ''y'' 2 (Inr 1), Pread 3 2 0, Close 3]
   \<and> map_option (trace \<circ> snd \<circ> snd)
       (session open_world ''/f'' (ByCreate 420) unopened []) =
       Some [Open ''/tmp/fuse_data/f'' 1089 (Some 420), Close 3]"
proof -
  let ?run = "session open_world ''/f'' ByOpen unopened [WriteReq ''hey'' 0, ReadReq 2 0]"
  have valid: "\<forall>f fl fd. open_res open_world f fl = Inr fd \<longrightarrow> fd \<le> INT_MAX"
    by (simp add: open_world_def INT_MAX_def)
  have opened: "fst (begin_session open_world ''/f'' ByOpen unopened) = 0"
    by (simp add: session_def basic_open_def basic_create_def sys_open_def basic_write_def
        write_loop.simps sys_pwrite_def basic_read_def sys_pread_def basic_release_def
        sys_close_def observe_def open_world_def text_world_def idle_world_def unopened_def
        get_full_path_def snprintf_def c_str_def DIR_PATH_def PATH_MAX_def NUL_def c_int_def
        c_uint64_def MAX_RW_COUNT_def O_CREAT_def O_WRONLY_def O_APPEND_def Let_def)
  have run: "map_option (trace \<circ> snd \<circ> snd) ?run =
       Some [Open ''/tmp/fuse_data/f'' 1025 None, Pwrite 3 ''hey'' 0 (Inr 2),
             Pwrite 3 ''y'' 2 (Inr 1), Pread 3 2 0, Close 3]"
    by (simp add: session_def basic_open_def basic_create_def sys_open_def basic_write_def
        write_loop.simps sys_pwrite_def basic_read_def sys_pread_def basic_release_def
        sys_close_def observe_def open_world_def text_world_def idle_world_def unopened_def
        get_full_path_def snprintf_def c_str_def DIR_PATH_def PATH_MAX_def NUL_def c_int_def
        c_uint64_def MAX_RW_COUNT_def O_CREAT_def O_WRONLY_def O_APPEND_def Let_def)
  have made: "map_option (trace \<circ> snd \<circ> snd)
       (session open_world ''/f'' (ByCreate 420) unopened []) =
       Some [Open ''/tmp/fuse_data/f'' 1089 (Some 420), Close 3]"
    by (simp add: session_def basic_open_def basic_create_def sys_open_def basic_write_def
        write_loop.simps sys_pwrite_def basic_read_def sys_pread_def basic_release_def
        sys_close_def observe_def open_world_def text_world_def idle_world_def unopened_def
        get_full_path_def snprintf_def c_str_def DIR_PATH_def PATH_MAX_def NUL_def c_int_def
        c_uint64_def MAX_RW_COUNT_def O_CREAT_def O_WRONLY_def O_APPEND_def Let_def)
  from run obtain r fi' w' where ended: "?run = Some (r, fi', w')"
    by (cases ?run) auto
  from session_closes_once [OF valid opened ended] have "fh fi' = 0" by blast
  with ended have "map_option (fh \<circ> fst \<circ> snd) ?run = Some 0" by simp
  moreover have "open_res open_world ''/tmp/fuse_data/f'' 1025 = Inr 3 \<and> 3 \<le> INT_MAX"
    by (simp add: open_world_def INT_MAX_def)
  ultimately show ?thesis using opened run made by blast
qed

end
